theory Spec2Isabelle
  imports Complex_Main "HOL-Library.Word"
begin

section \<open>Shared vocabulary: time, errors, contexts, provider values\<close>

text \<open>
  Instants (\<open>time.Time\<close>) and durations (\<open>time.Duration\<close>) are counted in nanoseconds
  and modelled as unbounded integers; a duration may be negative, as in Go.
\<close>

type_synonym time = int
type_synonym duration = int

definition Millisecond :: duration where
  "Millisecond = 1000000"

definition Second :: duration where
  "Second = 1000 * Millisecond"

definition Hour :: duration where
  "Hour = 3600 * Second"

text \<open>
  Error values. The two context errors are the sentinels of package \<open>context\<close>;
  \<open>Failure\<close> stands for any other error value a provider or a renderer hands back,
  named by its message. Each \<open>fmt.Errorf\<close> of the source with a \<open>%w\<close> verb is a
  constructor of its own that keeps the formatted arguments and the wrapped error:
  \<^item> \<open>ExecutorRender e\<close> is \<open>"executor render: %w"\<close>;
  \<^item> \<open>ExecutorAfter n e\<close> is \<open>"executor after %d attempts: %w"\<close>, where the wrapped
    error is \<open>None\<close> when \<open>lastErr\<close> is still nil;
  \<^item> \<open>ChainStepErr name e\<close> is \<open>"chain step %q: %w"\<close>;
  \<^item> \<open>StepAndFallbackFailed e\<close> is \<open>"step and fallback failed: %w"\<close>.

  \<open>NilDereference\<close> is not an error value of the program: it marks the places where the
  source would dereference a nil pointer and panic.
\<close>

datatype err =
    Canceled
  | DeadlineExceeded
  | ErrNoRenderer
  | PromptRequired
  | Failure string
  | ExecutorRender err
  | ExecutorAfter int "err option"
  | ChainStepErr string err
  | StepAndFallbackFailed err
  | NilDereference

text \<open>
  A \<open>context.Context\<close> is described by the instant at which its owner cancels it and by
  its deadline, either of which may be absent. \<open>ctx_Err\<close> is \<open>ctx.Err()\<close> read at a given
  instant: nil while the context is live, then the error of whichever event came first.
\<close>

record ctx =
  cancelAt :: "time option"
  deadline :: "time option"

definition background :: ctx where
  "background = \<lparr>cancelAt = None, deadline = None\<rparr>"

definition reached :: "time option \<Rightarrow> time \<Rightarrow> bool" where
  "reached t n = (case t of None \<Rightarrow> False | Some x \<Rightarrow> x \<le> n)"

definition ctx_Err :: "ctx \<Rightarrow> time \<Rightarrow> err option" where
  "ctx_Err c n =
     (if reached (cancelAt c) n \<and> reached (deadline c) n then
        (if the (cancelAt c) \<le> the (deadline c) then Some Canceled else Some DeadlineExceeded)
      else if reached (cancelAt c) n then Some Canceled
      else if reached (deadline c) n then Some DeadlineExceeded
      else None)"

text \<open>
  \<open>context.WithTimeout(parent, d)\<close> called at instant \<open>n\<close>: the child's deadline is
  \<open>n + d\<close> unless the parent already has an earlier one.
\<close>

definition WithTimeout :: "ctx \<Rightarrow> duration \<Rightarrow> time \<Rightarrow> ctx" where
  "WithTimeout c d n =
     c\<lparr>deadline := (case deadline c of None \<Rightarrow> Some (n + d)
                       | Some x \<Rightarrow> Some (min x (n + d)))\<rparr>"

text \<open>
  \<open>float64\<close> values are idealised as exact rationals. The request's temperature is only
  carried along; the circuit breaker compares one quotient with its threshold.
\<close>

type_synonym float64 = rat

type_synonym metadata = "(string \<times> string) list"

record CompletionRequest =
  req_Prompt :: string
  req_System :: string
  req_Model :: string
  req_Temperature :: float64
  req_MaxTokens :: int
  req_StopTokens :: "string list"
  req_TopP :: float64
  req_Metadata :: metadata

record TokenUsage =
  PromptTokens :: int
  CompletionTokens :: int
  TotalTokens :: int

record CompletionResponse =
  resp_Content :: string
  resp_Model :: string
  resp_Usage :: TokenUsage
  FinishReason :: string
  resp_Metadata :: metadata

section \<open>The world: clock, provider state, observation logs\<close>

text \<open>
  Everything the pipeline touches outside its own values: the wall clock \<open>now\<close>, the
  hidden state \<open>pstate\<close> of the completion service, and two logs that only record what
  happened, \<open>calls\<close> (each request handed to the service's \<open>Complete\<close> with the
  outcome it got, in order) and \<open>renders\<close> (the ID of each prompt whose \<open>Render\<close> was
  called, in order).
\<close>

record 'p world =
  now :: time
  pstate :: 'p
  calls :: "(CompletionRequest \<times> (err + CompletionResponse)) list"
  renders :: "string list"

text \<open>
  A completion service (\<open>provider.Provider\<close>, method \<open>Complete\<close>) is a deterministic
  function of the context, the request, the instant of the call and its hidden state; it
  answers with an error or a response, the instant at which it returns, and its new state.
  The Go signature returns a pointer and an error; a provider is taken to return exactly
  one of them non-nil.
\<close>

type_synonym 'p provider =
  "ctx \<Rightarrow> CompletionRequest \<Rightarrow> time \<Rightarrow> 'p \<Rightarrow> (err + CompletionResponse) \<times> time \<times> 'p"

definition provider_Complete ::
  "'p provider \<Rightarrow> ctx \<Rightarrow> CompletionRequest \<Rightarrow> 'p world
     \<Rightarrow> (err + CompletionResponse) \<times> 'p world" where
  "provider_Complete p c rq w =
     (case p c rq (now w) (pstate w) of
        (r, t, s) \<Rightarrow> (r, w\<lparr>now := t, pstate := s, calls := calls w @ [(rq, r)]\<rparr>))"

text \<open>The calls of \<open>Complete\<close> logged between an earlier world and a later one.\<close>

definition new_calls ::
  "'p world \<Rightarrow> 'p world \<Rightarrow> (CompletionRequest \<times> (err + CompletionResponse)) list" where
  "new_calls w w' = drop (length (calls w)) (calls w')"

text \<open>\<open>time.Sleep(d)\<close> returns after \<open>d\<close>, at once when \<open>d\<close> is zero or negative.\<close>

definition Sleep :: "duration \<Rightarrow> 'p world \<Rightarrow> 'p world" where
  "Sleep d w = w\<lparr>now := now w + max 0 d\<rparr>"

section \<open>Prompts (package core)\<close>

type_synonym Input = "string \<rightharpoonup> string"

record Rendered =
  System :: string
  User :: string
  Rendered_Input :: Input

text \<open>
  Of \<open>core.Prompt\<close> the pipeline reads the ID, the metadata and the renderer. The
  renderer (interface \<open>core.Renderer\<close>, implemented by the template engine outside this
  development) is a field holding a function of the context, the instant and the input;
  \<open>None\<close> is the nil renderer.
\<close>

record Prompt =
  ID :: string
  Name :: string
  Template :: string
  Metadata :: metadata
  renderer :: "(ctx \<Rightarrow> time \<Rightarrow> Input \<Rightarrow> err + Rendered) option"

definition Render :: "Prompt \<Rightarrow> ctx \<Rightarrow> Input \<Rightarrow> 'p world \<Rightarrow> (err + Rendered) \<times> 'p world" where
  "Render p c inp w =
     (let w' = w\<lparr>renders := renders w @ [ID p]\<rparr> in
      case renderer p of
        None \<Rightarrow> (Inl ErrNoRenderer, w')
      | Some r \<Rightarrow> (r c (now w) inp, w'))"

section \<open>Executor (package executor)\<close>

type_synonym BackoffFunc = "int \<Rightarrow> duration"

record 'p Executor =
  Provider :: "'p provider"
  MaxRetries :: int
  Backoff :: "BackoffFunc option"
  BaseTimeout :: duration

record ExecuteRequest =
  Prompt :: "Prompt option"
  Input :: Input
  Model :: string
  Temperature :: float64
  MaxTokens :: int
  StopTokens :: "string list"
  Timeout :: duration

record ExecuteResult =
  Content :: string
  Usage :: TokenUsage
  res_Model :: string
  res_Rendered :: Rendered
  Attempts :: int

text \<open>
  The attempt loop of \<open>Execute\<close>: \<open>for attempt := 0; attempt <= e.MaxRetries; attempt++\<close>.
  Its state is the loop variable, the counter \<open>attempts\<close> and \<open>lastErr\<close>. A Go pair
  \<open>(*ExecuteResult, error)\<close> is a pair of options. Between attempts the loop calls
  \<open>time.Sleep(e.Backoff(attempt))\<close>, which does not look at the context.
\<close>

function attempt_loop ::
  "'p Executor \<Rightarrow> ctx \<Rightarrow> CompletionRequest \<Rightarrow> Rendered \<Rightarrow> int \<Rightarrow> int \<Rightarrow> err option
     \<Rightarrow> 'p world \<Rightarrow> (ExecuteResult option \<times> err option) \<times> 'p world" where
  "attempt_loop e c creq rendered attempt attempts lastErr w =
     (if attempt \<le> MaxRetries e then
        (case provider_Complete (Provider e) c creq w of
           (Inr resp, w1) \<Rightarrow>
             ((Some \<lparr>Content = resp_Content resp, Usage = resp_Usage resp,
                     res_Model = resp_Model resp, res_Rendered = rendered,
                     Attempts = attempts + 1\<rparr>, None), w1)
         | (Inl er, w1) \<Rightarrow>
             if attempt = MaxRetries e then
               ((None, Some (ExecutorAfter (attempts + 1) (Some er))), w1)
             else
               attempt_loop e c creq rendered (attempt + 1) (attempts + 1) (Some er)
                 (case Backoff e of None \<Rightarrow> w1 | Some b \<Rightarrow> Sleep (b attempt) w1))
      else ((None, Some (ExecutorAfter attempts lastErr)), w))"
  by pat_completeness auto
termination
  by (relation "measure (\<lambda>(e, c, creq, rendered, attempt, attempts, lastErr, w).
        nat (MaxRetries e + 1 - attempt))") auto

declare attempt_loop.simps [simp del]

definition Execute ::
  "'p Executor \<Rightarrow> ctx \<Rightarrow> ExecuteRequest \<Rightarrow> 'p world
     \<Rightarrow> (ExecuteResult option \<times> err option) \<times> 'p world" where
  "Execute e c req w =
     (case Prompt req of
        None \<Rightarrow> ((None, Some PromptRequired), w)
      | Some p \<Rightarrow>
          (case Render p c (Input req) w of
             (Inl er, w1) \<Rightarrow> ((None, Some (ExecutorRender er)), w1)
           | (Inr rendered, w1) \<Rightarrow>
               (let timeout = (if Timeout req = 0 then BaseTimeout e else Timeout req);
                    c1 = (if timeout > 0 then WithTimeout c timeout (now w1) else c);
                    creq = \<lparr>req_Prompt = User rendered, req_System = System rendered,
                            req_Model = Model req, req_Temperature = Temperature req,
                            req_MaxTokens = MaxTokens req, req_StopTokens = StopTokens req,
                            req_TopP = 0, req_Metadata = Metadata p\<rparr>;
                    creq1 = (if req_Model creq = [] then creq\<lparr>req_Model := ''gpt-3.5-turbo''\<rparr>
                             else creq)
                in attempt_loop e c1 creq1 rendered 0 0 None w1)))"

section \<open>Chain (package chain)\<close>

record ChainResult =
  outputs :: "string \<rightharpoonup> string"

text \<open>
  A step's condition is a Go function of the context and the current result; it is taken
  to be pure.
\<close>

record stepDef =
  name :: string
  prompt :: "Prompt option"
  maxRetries :: int
  backoff :: "BackoffFunc option"
  timeout :: duration
  fallback :: "Prompt option"
  condition :: "(ctx \<Rightarrow> ChainResult \<Rightarrow> bool) option"

record node =
  parallel :: bool
  steps :: "stepDef list"

record 'p Chain =
  chain_name :: string
  nodes :: "node list"
  exec :: "'p Executor option"
  defaultModel :: string

text \<open>
  The instant at which a context becomes done, if it ever does: the earlier of its
  cancellation and its deadline.
\<close>

definition doneAt :: "ctx \<Rightarrow> time option" where
  "doneAt c =
     (case (cancelAt c, deadline c) of
        (None, None) \<Rightarrow> None
      | (Some a, None) \<Rightarrow> Some a
      | (None, Some b) \<Rightarrow> Some b
      | (Some a, Some b) \<Rightarrow> Some (min a b))"

text \<open>
  The backoff wait of \<open>runStep\<close>:
  \<^verbatim>\<open>select { case <-ctx.Done(): return "", ctx.Err(); case <-time.After(d): }\<close>.
  When the context is done no later than the timer fires, the wait ends at that instant
  with \<open>ctx.Err()\<close>; otherwise it lasts \<open>d\<close>. (When both channels are ready at the
  same instant Go chooses at random; the model lets the context win.)
\<close>

definition wait_backoff :: "ctx \<Rightarrow> duration \<Rightarrow> 'p world \<Rightarrow> err option \<times> 'p world" where
  "wait_backoff c d w =
     (case doneAt c of
        None \<Rightarrow> (None, Sleep d w)
      | Some t \<Rightarrow>
          if t \<le> now w + max 0 d
          then (ctx_Err c (max t (now w)), w\<lparr>now := max t (now w)\<rparr>)
          else (None, Sleep d w))"

text \<open>
  The retry loop of \<open>runStep\<close>, \<open>for attempt := 0; attempt <= s.maxRetries; attempt++\<close>.
  A Go pair \<open>(string, error)\<close> is a string with an optional error. The loop answers
  \<open>Some\<close> of the pair it returns, or \<open>None\<close> when it ends without returning (which
  happens only for a negative \<open>maxRetries\<close>) and control falls through to the
  render-only code.
\<close>

function runStep_loop ::
  "'p Executor \<Rightarrow> stepDef \<Rightarrow> ctx \<Rightarrow> ExecuteRequest \<Rightarrow> int \<Rightarrow> 'p world
     \<Rightarrow> (string \<times> err option) option \<times> 'p world" where
  "runStep_loop ex s c req attempt w =
     (if attempt \<le> maxRetries s then
        (case Execute ex c req w of
           ((res, None), w1) \<Rightarrow>
             (case res of
                Some r \<Rightarrow> (Some (Content r, None), w1)
              | None \<Rightarrow> (Some ([], Some NilDereference), w1))
         | ((res, Some er), w1) \<Rightarrow>
             if attempt = maxRetries s then
               (case fallback s of
                  Some fb \<Rightarrow>
                    (case Execute ex c (req\<lparr>Prompt := Some fb\<rparr>) w1 of
                       ((res2, Some er2), w2) \<Rightarrow> (Some ([], Some (StepAndFallbackFailed er)), w2)
                     | ((res2, None), w2) \<Rightarrow>
                         (case res2 of
                            Some r2 \<Rightarrow> (Some (Content r2, None), w2)
                          | None \<Rightarrow> (Some ([], Some NilDereference), w2)))
                | None \<Rightarrow> (Some ([], Some er), w1))
             else
               (case backoff s of
                  None \<Rightarrow> runStep_loop ex s c req (attempt + 1) w1
                | Some b \<Rightarrow>
                    (case wait_backoff c (b attempt) w1 of
                       (Some cer, w2) \<Rightarrow> (Some ([], Some cer), w2)
                     | (None, w2) \<Rightarrow> runStep_loop ex s c req (attempt + 1) w2)))
      else (None, w))"
  by pat_completeness auto
termination
  by (relation "measure (\<lambda>(ex, s, c, req, attempt, w). nat (maxRetries s + 1 - attempt))") auto

declare runStep_loop.simps [simp del]

definition render_only ::
  "stepDef \<Rightarrow> ctx \<Rightarrow> Input \<Rightarrow> 'p world \<Rightarrow> (string \<times> err option) \<times> 'p world" where
  "render_only s c inp w =
     (case prompt s of
        None \<Rightarrow> (([], Some NilDereference), w)
      | Some p \<Rightarrow>
          (case Render p c inp w of
             (Inl er, w1) \<Rightarrow> (([], Some er), w1)
           | (Inr rendered, w1) \<Rightarrow> ((User rendered, None), w1)))"

text \<open>
  \<open>runStep\<close> first derives the step's context (\<open>step_ctx\<close>) and, when the chain has an
  executor, builds the request (\<open>step_request\<close>); both are local variables of the source.
\<close>

definition step_ctx :: "stepDef \<Rightarrow> ctx \<Rightarrow> time \<Rightarrow> ctx" where
  "step_ctx s c n = (if timeout s > 0 then WithTimeout c (timeout s) n else c)"

definition step_request :: "'p Chain \<Rightarrow> stepDef \<Rightarrow> Input \<Rightarrow> ExecuteRequest" where
  "step_request ch s inp =
     \<lparr>Prompt = prompt s, Input = inp,
      Model = (if defaultModel ch \<noteq> [] then defaultModel ch else []),
      Temperature = 0, MaxTokens = 0, StopTokens = [], Timeout = timeout s\<rparr>"

definition runStep ::
  "'p Chain \<Rightarrow> ctx \<Rightarrow> stepDef \<Rightarrow> Input \<Rightarrow> 'p world \<Rightarrow> (string \<times> err option) \<times> 'p world" where
  "runStep ch c s inp w =
     (case exec ch of
        Some ex \<Rightarrow>
          (case runStep_loop ex s (step_ctx s c (now w)) (step_request ch s inp) 0 w of
             (Some r, w1) \<Rightarrow> (r, w1)
           | (None, w1) \<Rightarrow> render_only s (step_ctx s c (now w)) inp w1)
      | None \<Rightarrow> render_only s (step_ctx s c (now w)) inp w)"

text \<open>
  What it is for the primary task of a step to fail all its retries, read off the loop
  above: each of the \<open>maxRetries + 1\<close> executions of the primary prompt fails and no
  backoff wait is ended by the context. \<open>primary_fails\<close> then answers the error of the
  last execution (the loop's \<open>lastErr\<close>) and the world it left, and \<open>None\<close> otherwise. It
  is not part of the program; the fallback claim is stated with it.
\<close>

function primary_fails ::
  "'p Executor \<Rightarrow> stepDef \<Rightarrow> ctx \<Rightarrow> ExecuteRequest \<Rightarrow> int \<Rightarrow> 'p world
     \<Rightarrow> (err \<times> 'p world) option" where
  "primary_fails ex s c req attempt w =
     (if attempt \<le> maxRetries s then
        (case Execute ex c req w of
           ((res, None), w1) \<Rightarrow> None
         | ((res, Some er), w1) \<Rightarrow>
             if attempt = maxRetries s then Some (er, w1)
             else
               (case backoff s of
                  None \<Rightarrow> primary_fails ex s c req (attempt + 1) w1
                | Some b \<Rightarrow>
                    (case wait_backoff c (b attempt) w1 of
                       (Some cer, w2) \<Rightarrow> None
                     | (None, w2) \<Rightarrow> primary_fails ex s c req (attempt + 1) w2)))
      else None)"
  by pat_completeness auto
termination
  by (relation "measure (\<lambda>(ex, s, c, req, attempt, w). nat (maxRetries s + 1 - attempt))") auto

declare primary_fails.simps [simp del]

text \<open>
  \<open>skipped\<close> is the test both loops make before running a step:
  \<open>s.condition != nil && !s.condition(ctx, result)\<close>.
\<close>

definition skipped :: "stepDef \<Rightarrow> ctx \<Rightarrow> (string \<rightharpoonup> string) \<Rightarrow> bool" where
  "skipped s c result =
     (case condition s of None \<Rightarrow> False | Some f \<Rightarrow> \<not> f c \<lparr>outputs = result\<rparr>)"

text \<open>
  \<open>runParallel\<close> starts one goroutine per step whose condition does not skip it, waits
  for all of them, then reads their results from the channel. The goroutines share the
  world; the model runs them to completion one after another in launch order, which is
  one of the schedules Go admits, so the channel holds the results in that order.
  \<open>launch\<close> is the first loop together with \<open>wg.Wait()\<close>, \<open>drain\<close> the second loop.
\<close>

fun launch ::
  "'p Chain \<Rightarrow> ctx \<Rightarrow> stepDef list \<Rightarrow> Input \<Rightarrow> (string \<rightharpoonup> string) \<Rightarrow> 'p world
     \<Rightarrow> (string \<times> string \<times> err option) list \<times> 'p world" where
  "launch ch c [] inp result w = ([], w)"
| "launch ch c (s # ss) inp result w =
     (if skipped s c result then launch ch c ss inp result w
      else (case runStep ch c s inp w of
              ((v, er), w1) \<Rightarrow>
                (case launch ch c ss inp result w1 of
                   (ps, w2) \<Rightarrow> ((name s, v, er) # ps, w2))))"

fun drain ::
  "(string \<times> string \<times> err option) list \<Rightarrow> (string \<rightharpoonup> string)
     \<Rightarrow> (string \<rightharpoonup> string) option \<times> err option" where
  "drain [] out = (Some out, None)"
| "drain ((n, v, er) # ps) out =
     (case er of Some e \<Rightarrow> (None, Some e) | None \<Rightarrow> drain ps (out(n \<mapsto> v)))"

definition runParallel ::
  "'p Chain \<Rightarrow> ctx \<Rightarrow> stepDef list \<Rightarrow> Input \<Rightarrow> (string \<rightharpoonup> string) \<Rightarrow> 'p world
     \<Rightarrow> ((string \<rightharpoonup> string) option \<times> err option) \<times> 'p world" where
  "runParallel ch c ss inp result w =
     (case launch ch c ss inp result w of (ps, w1) \<Rightarrow> (drain ps Map.empty, w1))"

text \<open>
  The body of \<open>Chain.Execute\<close>. Its state is the result map, \<open>currentInput\<close> and the
  world; a loop answers the error that ended it, if any, with the state it had reached.
  \<open>exec_steps\<close> is the inner loop over the steps of a sequential node, \<open>exec_nodes\<close> the
  loop over the nodes. Merging the outputs of a parallel group writes each of them into
  both maps.
\<close>

fun exec_steps ::
  "'p Chain \<Rightarrow> ctx \<Rightarrow> stepDef list \<Rightarrow> (string \<rightharpoonup> string) \<times> Input \<times> 'p world
     \<Rightarrow> err option \<times> (string \<rightharpoonup> string) \<times> Input \<times> 'p world" where
  "exec_steps ch c [] st = (None, st)"
| "exec_steps ch c (s # ss) (result, inp, w) =
     (if skipped s c result then exec_steps ch c ss (result, inp, w)
      else (case runStep ch c s inp w of
              ((out, Some er), w1) \<Rightarrow> (Some (ChainStepErr (name s) er), result, inp, w1)
            | ((out, None), w1) \<Rightarrow>
                exec_steps ch c ss (result(name s \<mapsto> out), inp(name s \<mapsto> out), w1)))"

fun exec_nodes ::
  "'p Chain \<Rightarrow> ctx \<Rightarrow> node list \<Rightarrow> (string \<rightharpoonup> string) \<times> Input \<times> 'p world
     \<Rightarrow> err option \<times> (string \<rightharpoonup> string) \<times> Input \<times> 'p world" where
  "exec_nodes ch c [] st = (None, st)"
| "exec_nodes ch c (n # ns) (result, inp, w) =
     (if parallel n then
        (case runParallel ch c (steps n) inp result w of
           ((outs, Some er), w1) \<Rightarrow> (Some er, result, inp, w1)
         | ((outs, None), w1) \<Rightarrow>
             (case outs of
                None \<Rightarrow> exec_nodes ch c ns (result, inp, w1)
              | Some m \<Rightarrow> exec_nodes ch c ns (result ++ m, inp ++ m, w1)))
      else
        (case exec_steps ch c (steps n) (result, inp, w) of
           (Some er, st) \<Rightarrow> (Some er, st)
         | (None, st) \<Rightarrow> exec_nodes ch c ns st))"

definition Chain_Execute ::
  "'p Chain \<Rightarrow> ctx \<Rightarrow> Input \<Rightarrow> 'p world \<Rightarrow> (ChainResult option \<times> err option) \<times> 'p world" where
  "Chain_Execute ch c input w =
     (case exec_nodes ch c (nodes ch) (Map.empty, input, w) of
        (Some er, result, inp, w1) \<Rightarrow> ((None, Some er), w1)
      | (None, result, inp, w1) \<Rightarrow> ((Some \<lparr>outputs = result\<rparr>, None), w1))"

section \<open>Decorators (package middleware)\<close>

subsection \<open>Cache\<close>

type_synonym bytes = string

record cacheEntry =
  val :: bytes
  expires :: time

type_synonym InMemoryCache = "string \<rightharpoonup> cacheEntry"

text \<open>
  \<open>InMemoryCache.Get\<close> and \<open>Set\<close> read the clock; the instant is an argument here. A
  Go pair \<open>([]byte, bool)\<close> is an option.
\<close>

definition InMemoryCache_Get :: "InMemoryCache \<Rightarrow> string \<Rightarrow> time \<Rightarrow> bytes option" where
  "InMemoryCache_Get m key n =
     (case m key of
        None \<Rightarrow> None
      | Some e \<Rightarrow> if n > expires e then None else Some (val e))"

definition InMemoryCache_Set ::
  "InMemoryCache \<Rightarrow> string \<Rightarrow> bytes \<Rightarrow> duration \<Rightarrow> time \<Rightarrow> InMemoryCache" where
  "InMemoryCache_Set m key v ttl n = m(key \<mapsto> \<lparr>val = v, expires = n + ttl\<rparr>)"

text \<open>
  \<open>encodeResponse\<close> and \<open>decodeResponse\<close> are \<open>json.Marshal\<close> and \<open>json.Unmarshal\<close> of
  the standard library, which is outside the repository: the pair of them is a
  parameter, each answering \<open>None\<close> for an error.
\<close>

record json =
  Marshal :: "CompletionResponse \<Rightarrow> bytes option"
  Unmarshal :: "bytes \<Rightarrow> CompletionResponse option"

text \<open>
  The cache of a \<open>cacheProvider\<close> is an interface value that may be nil; the one
  implementation in the repository is \<open>InMemoryCache\<close>.
\<close>

record cacheProvider =
  cache :: "InMemoryCache option"
  ttl :: duration

definition CacheMiddleware :: "InMemoryCache option \<Rightarrow> duration \<Rightarrow> cacheProvider" where
  "CacheMiddleware m d = \<lparr>cache = m, ttl = (if d \<le> 0 then Hour else d)\<rparr>"

text \<open>
  \<open>cache_key\<close> is the local variable \<open>key\<close> of \<open>Complete\<close>, and \<open>cached\<close> its lookup: the
  response decoded from a live entry, or \<open>None\<close> when the cache is nil, holds no live entry
  under the key, or holds bytes that do not decode.
\<close>

definition cache_key :: "CompletionRequest \<Rightarrow> string" where
  "cache_key rq = req_Model rq @ [CHR 0x00] @ req_System rq @ [CHR 0x00] @ req_Prompt rq"

definition cached :: "json \<Rightarrow> cacheProvider \<Rightarrow> string \<Rightarrow> time \<Rightarrow> CompletionResponse option" where
  "cached j cp key n =
     (case cache cp of
        None \<Rightarrow> None
      | Some m \<Rightarrow>
          (case InMemoryCache_Get m key n of
             None \<Rightarrow> None
           | Some raw \<Rightarrow> Unmarshal j raw))"

definition cacheProvider_Complete ::
  "json \<Rightarrow> 'p provider \<Rightarrow> cacheProvider \<Rightarrow> ctx \<Rightarrow> CompletionRequest \<Rightarrow> 'p world
     \<Rightarrow> (err + CompletionResponse) \<times> cacheProvider \<times> 'p world" where
  "cacheProvider_Complete j next cp c rq w =
     (case cached j cp (cache_key rq) (now w) of
        Some resp \<Rightarrow> (Inr resp, cp, w)
      | None \<Rightarrow>
          (case provider_Complete next c rq w of
             (Inl er, w1) \<Rightarrow> (Inl er, cp, w1)
           | (Inr resp, w1) \<Rightarrow>
               (Inr resp,
                (case cache cp of
                   None \<Rightarrow> cp
                 | Some m \<Rightarrow>
                     (case Marshal j resp of
                        None \<Rightarrow> cp
                      | Some raw \<Rightarrow>
                          cp\<lparr>cache := Some (InMemoryCache_Set m (cache_key rq) raw (ttl cp) (now w1))\<rparr>)),
                w1)))"

subsection \<open>Circuit breaker\<close>

datatype cbState = cbClosed | cbOpen | cbHalfOpen

text \<open>
  The counters are \<open>atomic.Uint64\<close>: 64-bit words, whose increment wraps. The model is of
  calls that do not overlap, so the mutex and the atomics only hold values.
\<close>

record circuitBreakerProvider =
  threshold :: float64
  cb_timeout :: duration
  requests :: "64 word"
  failures :: "64 word"
  state :: cbState
  openUntil :: time

definition CircuitBreaker :: "float64 \<Rightarrow> duration \<Rightarrow> circuitBreakerProvider" where
  "CircuitBreaker th d =
     \<lparr>threshold = th, cb_timeout = d, requests = 0, failures = 0, state = cbClosed,
      openUntil = 0\<rparr>"

definition rate :: "circuitBreakerProvider \<Rightarrow> float64" where
  "rate cb = of_nat (unat (failures cb)) / of_nat (unat (requests cb))"

text \<open>
  \<open>on_failure\<close> is the block that \<open>Complete\<close> runs under the mutex after a failed call,
  once \<open>failures\<close> has been incremented; \<open>rate\<close> is its local variable, the quotient of the
  two counters converted to \<open>float64\<close>.
\<close>

definition on_failure :: "circuitBreakerProvider \<Rightarrow> time \<Rightarrow> circuitBreakerProvider" where
  "on_failure cb n =
     (if state cb = cbHalfOpen then cb\<lparr>state := cbOpen, openUntil := n + cb_timeout cb\<rparr>
      else if requests cb \<ge> 10 then
        (if rate cb \<ge> threshold cb then cb\<lparr>state := cbOpen, openUntil := n + cb_timeout cb\<rparr>
         else cb)
      else cb)"

definition circuitBreakerProvider_Complete ::
  "'p provider \<Rightarrow> circuitBreakerProvider \<Rightarrow> ctx \<Rightarrow> CompletionRequest \<Rightarrow> 'p world
     \<Rightarrow> (err + CompletionResponse) \<times> circuitBreakerProvider \<times> 'p world" where
  "circuitBreakerProvider_Complete next cb c rq w =
     (if state cb = cbOpen \<and> now w < openUntil cb then (Inl DeadlineExceeded, cb, w)
      else
        (let cb1 = (if state cb = cbOpen then cb\<lparr>state := cbHalfOpen\<rparr> else cb);
             cb2 = cb1\<lparr>requests := requests cb1 + 1\<rparr>
         in case provider_Complete next c rq w of
              (Inl er, w1) \<Rightarrow>
                (Inl er, on_failure (cb2\<lparr>failures := failures cb2 + 1\<rparr>) (now w1), w1)
            | (Inr resp, w1) \<Rightarrow>
                (Inr resp, (if state cb2 = cbHalfOpen then cb2\<lparr>state := cbClosed\<rparr> else cb2), w1)))"

section \<open>Concrete services, prompts and chains\<close>

text \<open>Values on which the theorems below are exercised.\<close>

definition ok_response :: CompletionResponse where
  "ok_response = \<lparr>resp_Content = ''ok'', resp_Model = ''m1'',
     resp_Usage = \<lparr>PromptTokens = 3, CompletionTokens = 1, TotalTokens = 4\<rparr>,
     FinishReason = ''stop'', resp_Metadata = []\<rparr>"

text \<open>A service that fails its first \<open>k\<close> calls and then answers; its state counts calls.\<close>

definition flaky :: "nat \<Rightarrow> nat provider" where
  "flaky k = (\<lambda>c rq t s.
     (if s < k then Inl (Failure ''unavailable'') else Inr ok_response, t, Suc s))"

text \<open>A service that answers every request with the request's own prompt text.\<close>

definition echo :: "nat provider" where
  "echo = (\<lambda>c rq t s. (Inr (ok_response\<lparr>resp_Content := req_Prompt rq\<rparr>), t, Suc s))"

text \<open>A service that fails exactly the requests whose prompt text is \<open>''bad''\<close>.\<close>

definition picky :: "nat provider" where
  "picky = (\<lambda>c rq t s.
     (if req_Prompt rq = ''bad'' then Inl (Failure ''rejected'')
      else Inr (ok_response\<lparr>resp_Content := req_Prompt rq\<rparr>), t, Suc s))"

text \<open>A service whose first call fails with the cancellation error and which then answers.\<close>

definition cancelled_once :: "nat provider" where
  "cancelled_once = (\<lambda>c rq t s. (if s = 0 then Inl Canceled else Inr ok_response, t, Suc s))"

text \<open>A prompt that renders to its own name.\<close>

definition say :: "string \<Rightarrow> Prompt" where
  "say s = \<lparr>ID = s, Name = s, Template = s, Metadata = [],
     renderer = Some (\<lambda>c t inp. Inr \<lparr>System = [], User = s, Rendered_Input = inp\<rparr>)\<rparr>"

definition start :: "nat world" where
  "start = \<lparr>now = 0, pstate = 0, calls = [], renders = []\<rparr>"

definition ask :: "string \<Rightarrow> ExecuteRequest" where
  "ask s = \<lparr>Prompt = Some (say s), Input = Map.empty, Model = [], Temperature = 0,
     MaxTokens = 0, StopTokens = [], Timeout = 0\<rparr>"

definition retrying :: "nat provider \<Rightarrow> int \<Rightarrow> nat Executor" where
  "retrying p n = \<lparr>Provider = p, MaxRetries = n, Backoff = Some (\<lambda>a. 0), BaseTimeout = 0\<rparr>"

definition step :: "string \<Rightarrow> stepDef" where
  "step s = \<lparr>name = s, prompt = Some (say s), maxRetries = 0, backoff = None, timeout = 0,
     fallback = None, condition = None\<rparr>"

definition chain_of :: "nat provider \<Rightarrow> node list \<Rightarrow> nat Chain" where
  "chain_of p ns = \<lparr>chain_name = ''c'', nodes = ns, exec = Some (retrying p 0),
     defaultModel = []\<rparr>"

definition identity_json :: json where
  "identity_json = \<lparr>Marshal = (\<lambda>r. Some (resp_Content r)),
     Unmarshal = (\<lambda>b. Some (ok_response\<lparr>resp_Content := b\<rparr>))\<rparr>"

text \<open>Circuit breakers in each state, and a request.\<close>

definition half_open_breaker :: circuitBreakerProvider where
  "half_open_breaker = \<lparr>threshold = 1 / 2, cb_timeout = 30, requests = 12, failures = 7,
     state = cbHalfOpen, openUntil = 0\<rparr>"

definition closed_breaker :: circuitBreakerProvider where
  "closed_breaker = \<lparr>threshold = 1 / 2, cb_timeout = 30, requests = 9, failures = 5,
     state = cbClosed, openUntil = 0\<rparr>"

definition open_breaker :: circuitBreakerProvider where
  "open_breaker = \<lparr>threshold = 1 / 2, cb_timeout = 30, requests = 10, failures = 6,
     state = cbOpen, openUntil = 30\<rparr>"

definition hello :: CompletionRequest where
  "hello = \<lparr>req_Prompt = ''hello'', req_System = [], req_Model = ''m1'', req_Temperature = 0,
     req_MaxTokens = 0, req_StopTokens = [], req_TopP = 0, req_Metadata = []\<rparr>"

text \<open>A cache decorator built with an unset TTL over an empty in-memory cache.\<close>

definition hourly :: cacheProvider where
  "hourly = CacheMiddleware (Some Map.empty) 0"

text \<open>
  A service seen through a renaming of its errors: \<open>relabel f p\<close> behaves as \<open>p\<close> does, but
  where \<open>p\<close> fails with \<open>x\<close> it fails with \<open>f x\<close>. \<open>relabel_call\<close> renames the error of
  a log entry, \<open>relabel_err\<close> the error that \<open>Execute\<close> wraps after its last attempt. They
  serve to state that the executor does not look at which error a call failed with.
\<close>

definition relabel :: "(err \<Rightarrow> err) \<Rightarrow> 'p provider \<Rightarrow> 'p provider" where
  "relabel f p = (\<lambda>c rq t s. case p c rq t s of (r, t', s') \<Rightarrow> (map_sum f id r, t', s'))"

definition relabel_call ::
  "(err \<Rightarrow> err) \<Rightarrow> CompletionRequest \<times> (err + CompletionResponse)
     \<Rightarrow> CompletionRequest \<times> (err + CompletionResponse)" where
  "relabel_call f x = (fst x, map_sum f id (snd x))"

fun relabel_err :: "(err \<Rightarrow> err) \<Rightarrow> err \<Rightarrow> err" where
  "relabel_err f (ExecutorAfter n x) = ExecutorAfter n (map_option f x)"
| "relabel_err f e = e"

text \<open>
  An executor that sleeps 10ns between its two attempts, and a context that its owner
  cancels at instant 5.
\<close>

definition sleepy :: "nat Executor" where
  "sleepy = \<lparr>Provider = flaky 9, MaxRetries = 1, Backoff = Some (\<lambda>a. 10), BaseTimeout = 0\<rparr>"

definition cancelled_at_5 :: ctx where
  "cancelled_at_5 = \<lparr>cancelAt = Some 5, deadline = None\<rparr>"

text \<open>
  A step whose primary prompt the service \<open>picky\<close> rejects, retried once, with a fallback
  prompt; a step that a condition always skips; and nodes of one step.
\<close>

definition with_fallback :: "string \<Rightarrow> stepDef" where
  "with_fallback s = (step ''bad'')\<lparr>name := ''t'', maxRetries := 1, fallback := Some (say s)\<rparr>"

definition never :: "string \<Rightarrow> stepDef" where
  "never s = (step s)\<lparr>condition := Some (\<lambda>c r. False)\<rparr>"

definition seq :: "stepDef \<Rightarrow> node" where
  "seq s = \<lparr>parallel = False, steps = [s]\<rparr>"

definition par :: "stepDef list \<Rightarrow> node" where
  "par ss = \<lparr>parallel = True, steps = ss\<rparr>"

section \<open>Properties\<close>

subsection \<open>Logs\<close>

lemma provider_Complete_calls:
  "provider_Complete p c rq w = (r, w1) \<Longrightarrow> calls w1 = calls w @ [(rq, r)]"
  by (auto simp: provider_Complete_def split: prod.splits)

lemma provider_Complete_new_calls:
  "provider_Complete p c rq w = (r, w1) \<Longrightarrow> new_calls w w1 = [(rq, r)]"
  by (simp add: new_calls_def provider_Complete_calls)

subsection \<open>Circuit breaker\<close>

text \<open>
  Claim C4. The breaker goes from closed to open only on a failed call after which the
  request counter is at least 10 and the quotient of failures by requests is at least the
  threshold, and it then sets \<open>openUntil\<close> to the instant of the failure plus the timeout.
  While it is open and the clock is before \<open>openUntil\<close>, \<open>Complete\<close> answers
  \<open>context.DeadlineExceeded\<close> whatever the inner service is, and leaves the breaker and the
  world (so also the log of calls to the inner service) as they were.
\<close>

theorem breaker_opens_after_ten_and_fails_fast:
  "(state cb = cbClosed \<and> circuitBreakerProvider_Complete next cb c rq w = (r, cb', w') \<and>
      state cb' = cbOpen \<longrightarrow>
        isl r \<and> 10 \<le> requests cb' \<and> threshold cb \<le> rate cb' \<and>
        openUntil cb' = now w' + cb_timeout cb) \<and>
   (state cb = cbOpen \<and> now w < openUntil cb \<longrightarrow>
        circuitBreakerProvider_Complete next cb c rq w = (Inl DeadlineExceeded, cb, w))"
proof -
  have fast: "circuitBreakerProvider_Complete next cb c rq w = (Inl DeadlineExceeded, cb, w)"
    if "state cb = cbOpen \<and> now w < openUntil cb"
    using that by (simp add: circuitBreakerProvider_Complete_def)
  have opens: "isl r \<and> 10 \<le> requests cb' \<and> threshold cb \<le> rate cb' \<and>
        openUntil cb' = now w' + cb_timeout cb"
    if a: "state cb = cbClosed \<and> circuitBreakerProvider_Complete next cb c rq w = (r, cb', w') \<and>
      state cb' = cbOpen"
  proof -
    obtain r1 w1 where pc: "provider_Complete next c rq w = (r1, w1)"
      by (cases "provider_Complete next c rq w")
    show ?thesis
    proof (cases r1)
      case (Inr resp)
      with a pc show ?thesis
        by (auto simp: circuitBreakerProvider_Complete_def Let_def)
    next
      case (Inl er)
      with a pc show ?thesis
        by (auto simp: circuitBreakerProvider_Complete_def Let_def on_failure_def rate_def
                 split: if_splits)
    qed
  qed
  from fast opens show ?thesis by blast
qed

theorem breaker_witness:
  "state (fst (snd (circuitBreakerProvider_Complete (flaky 99) closed_breaker background hello start))) = cbOpen \<and>
   requests (fst (snd (circuitBreakerProvider_Complete (flaky 99) closed_breaker background hello start))) = 10 \<and>
   openUntil (fst (snd (circuitBreakerProvider_Complete (flaky 99) closed_breaker background hello start))) = 30 \<and>
   circuitBreakerProvider_Complete echo open_breaker background hello start
     = (Inl DeadlineExceeded, open_breaker, start)"
proof -
  let ?r = "circuitBreakerProvider_Complete (flaky 99) closed_breaker background hello start"
  have e: "?r = (Inl (Failure ''unavailable''), fst (snd ?r), snd (snd ?r))"
    by (simp add: circuitBreakerProvider_Complete_def closed_breaker_def flaky_def start_def
     provider_Complete_def hello_def ok_response_def background_def on_failure_def rate_def)
  have s: "state (fst (snd ?r)) = cbOpen" and q: "requests (fst (snd ?r)) = 10"
    and n: "now (snd (snd ?r)) = 0"
    by (simp_all add: circuitBreakerProvider_Complete_def closed_breaker_def flaky_def start_def
     provider_Complete_def hello_def ok_response_def background_def on_failure_def rate_def)
  have c: "state closed_breaker = cbClosed" "cb_timeout closed_breaker = 30"
    by (simp_all add: closed_breaker_def)
  have o: "state open_breaker = cbOpen \<and> now start < openUntil open_breaker"
    by (simp add: open_breaker_def start_def)
  from breaker_opens_after_ten_and_fails_fast[of closed_breaker "flaky 99" background hello start
      "Inl (Failure ''unavailable'')" "fst (snd ?r)" "snd (snd ?r)"] e s c n q
  have "openUntil (fst (snd ?r)) = 30" by simp
  moreover from breaker_opens_after_ten_and_fails_fast[of open_breaker echo background hello start] o
  have "circuitBreakerProvider_Complete echo open_breaker background hello start
     = (Inl DeadlineExceeded, open_breaker, start)" by blast
  ultimately show ?thesis using s q by simp
qed

text \<open>
  Claim C2, as amended. A call that finds the breaker half-open, or open with \<open>openUntil\<close>
  reached, is handed to the inner service, once. If it succeeds the breaker is closed; the
  request counter has been incremented for this call and the failure counter is what it
  was: the counters are not reset. If it fails the breaker is open again with \<open>openUntil\<close>
  the instant of the failure plus the timeout, and both counters have been incremented.
  Either way the breaker is no longer half-open when the call returns.
\<close>

theorem half_open_outcome:
  assumes "state cb = cbHalfOpen \<or> (state cb = cbOpen \<and> openUntil cb \<le> now w)"
      and "circuitBreakerProvider_Complete next cb c rq w = (r, cb', w')"
  shows "new_calls w w' = [(rq, r)] \<and> requests cb' = requests cb + 1 \<and>
     (case r of
        Inr resp \<Rightarrow> state cb' = cbClosed \<and> failures cb' = failures cb \<and>
                    openUntil cb' = openUntil cb
      | Inl er \<Rightarrow> state cb' = cbOpen \<and> failures cb' = failures cb + 1 \<and>
                  openUntil cb' = now w' + cb_timeout cb)"
proof -
  obtain r1 w1 where pc: "provider_Complete next c rq w = (r1, w1)"
    by (cases "provider_Complete next c rq w")
  note nc = provider_Complete_new_calls[OF pc]
  show ?thesis
  proof (cases r1)
    case (Inr resp)
    with assms pc nc show ?thesis
      by (auto simp: circuitBreakerProvider_Complete_def Let_def split: if_splits)
  next
    case (Inl er)
    with assms pc nc show ?thesis
      by (auto simp: circuitBreakerProvider_Complete_def Let_def on_failure_def split: if_splits)
  qed
qed

theorem half_open_outcome_witness:
  "new_calls start (snd (snd (circuitBreakerProvider_Complete echo half_open_breaker background hello start)))
     = [(hello, Inr (ok_response\<lparr>resp_Content := ''hello''\<rparr>))] \<and>
   state (fst (snd (circuitBreakerProvider_Complete echo half_open_breaker background hello start))) = cbClosed \<and>
   state (fst (snd (circuitBreakerProvider_Complete (flaky 1) half_open_breaker background hello start))) = cbOpen \<and>
   openUntil (fst (snd (circuitBreakerProvider_Complete (flaky 1) half_open_breaker background hello start))) = 30"
proof -
  have h: "state half_open_breaker = cbHalfOpen \<or>
      (state half_open_breaker = cbOpen \<and> openUntil half_open_breaker \<le> now start)"
    by (simp add: half_open_breaker_def)
  have e1: "circuitBreakerProvider_Complete echo half_open_breaker background hello start =
     (Inr (ok_response\<lparr>resp_Content := ''hello''\<rparr>),
      fst (snd (circuitBreakerProvider_Complete echo half_open_breaker background hello start)),
      snd (snd (circuitBreakerProvider_Complete echo half_open_breaker background hello start)))"
    by (simp add: circuitBreakerProvider_Complete_def half_open_breaker_def echo_def start_def
     provider_Complete_def hello_def ok_response_def background_def)
  have e2: "circuitBreakerProvider_Complete (flaky 1) half_open_breaker background hello start =
     (Inl (Failure ''unavailable''),
      fst (snd (circuitBreakerProvider_Complete (flaky 1) half_open_breaker background hello start)),
      snd (snd (circuitBreakerProvider_Complete (flaky 1) half_open_breaker background hello start)))"
    by (simp add: circuitBreakerProvider_Complete_def half_open_breaker_def flaky_def start_def
     provider_Complete_def hello_def ok_response_def background_def on_failure_def)
  have n2: "now (snd (snd (circuitBreakerProvider_Complete (flaky 1) half_open_breaker background hello start))) = 0"
    by (simp add: circuitBreakerProvider_Complete_def half_open_breaker_def flaky_def start_def
     provider_Complete_def hello_def ok_response_def background_def on_failure_def)
  have t: "cb_timeout half_open_breaker = 30" by (simp add: half_open_breaker_def)
  from half_open_outcome[OF h e1] half_open_outcome[OF h e2] n2 t show ?thesis by simp
qed

text \<open>
  Claim C2 as stated fails: a half-open breaker with 12 requests and 7 failures on record
  closes after a successful call with 13 requests and 7 failures on record, not with zero.
\<close>

theorem half_open_counters_counterexample:
  "state (fst (snd (circuitBreakerProvider_Complete echo half_open_breaker background hello start))) = cbClosed \<and>
   requests (fst (snd (circuitBreakerProvider_Complete echo half_open_breaker background hello start))) = 13 \<and>
   failures (fst (snd (circuitBreakerProvider_Complete echo half_open_breaker background hello start))) = 7"
  by (simp add: circuitBreakerProvider_Complete_def half_open_breaker_def echo_def start_def
     provider_Complete_def hello_def ok_response_def background_def)

subsection \<open>Cache\<close>

text \<open>
  Claim C5. Take a cache decorator with a cache, a request for which it holds no live
  entry, and a first \<open>Complete\<close> that succeeds with a response that \<open>json.Marshal\<close> encodes
  and \<open>json.Unmarshal\<close> decodes again. Then the first call invoked the inner service
  exactly once and stored the encoded response under the request's key, expiring one TTL
  after the instant the inner call returned. A second \<open>Complete\<close> with the same model,
  system text and user text, made no later than that expiry, returns the decoded stored
  response and leaves the decorator and the world as they are, whatever the inner service
  is: the inner service is not invoked. After the expiry the entry is no longer returned,
  and no entry of an \<open>InMemoryCache\<close> is ever returned after its expiry. A decorator built
  with a TTL that is zero or negative has a TTL of one hour.
\<close>

theorem cache_hit_before_expiry:
  assumes c: "cache cp = Some m"
      and miss: "cached j cp (cache_key rq) (now w) = None"
      and first: "cacheProvider_Complete j next cp ca rq w = (Inr resp, cp', wa)"
      and enc: "Marshal j resp = Some raw"
      and dec: "Unmarshal j raw = Some resp'"
      and same: "req_Model rq' = req_Model rq \<and> req_System rq' = req_System rq \<and>
                 req_Prompt rq' = req_Prompt rq"
      and before: "now wb \<le> now wa + ttl cp"
  shows "new_calls w wa = [(rq, Inr resp)] \<and>
         cache cp' = Some (m(cache_key rq \<mapsto> \<lparr>val = raw, expires = now wa + ttl cp\<rparr>)) \<and>
         cacheProvider_Complete j inner cp' cb rq' wb = (Inr resp', cp', wb) \<and>
         (now wa + ttl cp < now wl \<longrightarrow> cached j cp' (cache_key rq) (now wl) = None) \<and>
         (\<forall>e. st k = Some e \<and> expires e < n \<longrightarrow> InMemoryCache_Get st k n = None) \<and>
         (d \<le> 0 \<longrightarrow> ttl (CacheMiddleware mm d) = Hour)"
proof -
  obtain r0 w0 where pc: "provider_Complete next ca rq w = (r0, w0)"
    by (cases "provider_Complete next ca rq w")
  from first miss pc have r0: "r0 = Inr resp" and w0: "w0 = wa"
    by (auto simp: cacheProvider_Complete_def split: sum.splits)
  from first miss pc c enc r0
  have cp': "cp' = cp\<lparr>cache := Some (InMemoryCache_Set m (cache_key rq) raw (ttl cp) (now wa))\<rparr>"
    by (auto simp: cacheProvider_Complete_def split: sum.splits)
  have k: "cache_key rq' = cache_key rq" using same by (simp add: cache_key_def)
  have n: "new_calls w wa = [(rq, Inr resp)]"
    using provider_Complete_new_calls[OF pc] r0 w0 by simp
  have hit: "cached j cp' (cache_key rq') (now wb) = Some resp'"
    using cp' k before dec by (simp add: cached_def InMemoryCache_Get_def InMemoryCache_Set_def)
  have second: "cacheProvider_Complete j inner cp' cb rq' wb = (Inr resp', cp', wb)"
    using hit by (simp add: cacheProvider_Complete_def)
  have late: "cached j cp' (cache_key rq) (now wl) = None" if "now wa + ttl cp < now wl"
    using that cp' by (simp add: cached_def InMemoryCache_Get_def InMemoryCache_Set_def)
  have gen: "\<forall>e. st k = Some e \<and> expires e < n \<longrightarrow> InMemoryCache_Get st k n = None"
    by (simp add: InMemoryCache_Get_def)
  have dflt: "d \<le> 0 \<longrightarrow> ttl (CacheMiddleware mm d) = Hour"
    by (simp add: CacheMiddleware_def)
  from n cp' second late gen dflt show ?thesis
    by (simp add: InMemoryCache_Set_def)
qed

theorem cache_hit_before_expiry_witness:
  "new_calls start (snd (snd (cacheProvider_Complete identity_json echo hourly background hello start)))
     = [(hello, Inr (ok_response\<lparr>resp_Content := ''hello''\<rparr>))] \<and>
   cacheProvider_Complete identity_json (flaky 9)
       (fst (snd (cacheProvider_Complete identity_json echo hourly background hello start)))
       background (hello\<lparr>req_MaxTokens := 5\<rparr>)
       (start\<lparr>now := 3600 * 1000 * 1000000\<rparr>)
     = (Inr (ok_response\<lparr>resp_Content := ''hello''\<rparr>),
        fst (snd (cacheProvider_Complete identity_json echo hourly background hello start)),
        start\<lparr>now := 3600 * 1000 * 1000000\<rparr>) \<and>
   cached identity_json
       (fst (snd (cacheProvider_Complete identity_json echo hourly background hello start)))
       (cache_key hello) (3600 * 1000 * 1000000 + 1) = None"
proof -
  let ?out = "cacheProvider_Complete identity_json echo hourly background hello start"
  let ?resp = "ok_response\<lparr>resp_Content := ''hello''\<rparr>"
  have c: "cache hourly = Some Map.empty" and t: "ttl hourly = 3600 * 1000 * 1000000"
    by (simp_all add: hourly_def CacheMiddleware_def Hour_def Second_def Millisecond_def)
  have miss: "cached identity_json hourly (cache_key hello) (now start) = None"
    by (simp add: cached_def hourly_def CacheMiddleware_def InMemoryCache_Get_def)
  have first: "?out = (Inr ?resp, fst (snd ?out), snd (snd ?out))"
    by (simp add: cacheProvider_Complete_def cached_def hourly_def CacheMiddleware_def
        InMemoryCache_Get_def provider_Complete_def echo_def hello_def start_def)
  have n1: "now (snd (snd ?out)) = 0"
    by (simp add: cacheProvider_Complete_def cached_def hourly_def CacheMiddleware_def
        InMemoryCache_Get_def provider_Complete_def echo_def hello_def start_def)
  have enc: "Marshal identity_json ?resp = Some ''hello''"
    by (simp add: identity_json_def)
  have dec: "Unmarshal identity_json ''hello'' = Some ?resp"
    by (simp add: identity_json_def)
  have same: "req_Model (hello\<lparr>req_MaxTokens := 5\<rparr>) = req_Model hello \<and>
      req_System (hello\<lparr>req_MaxTokens := 5\<rparr>) = req_System hello \<and>
      req_Prompt (hello\<lparr>req_MaxTokens := 5\<rparr>) = req_Prompt hello"
    by simp
  have before: "now (start\<lparr>now := 3600 * 1000 * 1000000\<rparr>) \<le> now (snd (snd ?out)) + ttl hourly"
    using n1 t by simp
  from cache_hit_before_expiry[OF c miss first enc dec same before,
      where wl = "start\<lparr>now := 3600 * 1000 * 1000000 + 1\<rparr>" and inner = "flaky 9"
        and cb = background]
    n1 t
  show ?thesis by simp
qed

subsection \<open>Executor\<close>

text \<open>
  What one run of the attempt loop, and so of \<open>Execute\<close>, adds to the log of calls: every
  entry carries the one request built before the loop; a run that returns a result ends
  with the only successful call, and \<open>Attempts\<close> counts the entries; a run that returns
  no result made \<open>MaxRetries + 1\<close> calls (none when that is negative), all failed, and
  wraps the error of the last one.
\<close>

lemma Sleep_calls [simp]: "calls (Sleep d w) = calls w"
  by (simp add: Sleep_def)

lemma attempt_loop_trace:
  "attempt_loop e c creq rd a n le w = ((res, er), w') \<Longrightarrow>
   \<exists>new. calls w' = calls w @ new \<and> (\<forall>x\<in>set new. fst x = creq) \<and>
     (case res of
        Some r \<Rightarrow> er = None \<and> new \<noteq> [] \<and> (\<forall>x\<in>set (butlast new). isl (snd x)) \<and>
          Attempts r = n + int (length new) \<and>
          (\<exists>resp. snd (last new) = Inr resp \<and> Content r = resp_Content resp)
      | None \<Rightarrow> (\<forall>x\<in>set new. isl (snd x)) \<and>
          int (length new) = max 0 (MaxRetries e + 1 - a) \<and>
          er = Some (ExecutorAfter (n + int (length new))
                 (if new = [] then le else Some (projl (snd (last new))))))"
proof (induction e c creq rd a n le w arbitrary: res er w' rule: attempt_loop.induct)
  case (1 e c creq rendered attempt attempts lastErr w)
  note st = attempt_loop.simps[of e c creq rendered attempt attempts lastErr w]
  note run = "1.prems"[unfolded st]
  show ?case
  proof (cases "attempt \<le> MaxRetries e")
    case False
    with run show ?thesis
      by simp
  next
    case True
    obtain r w1 where pc: "provider_Complete (Provider e) c creq w = (r, w1)"
      by (cases "provider_Complete (Provider e) c creq w")
    have cw1: "calls w1 = calls w @ [(creq, r)]" using pc by (rule provider_Complete_calls)
    show ?thesis
    proof (cases r)
      case (Inr resp)
      with run True pc have "res = Some \<lparr>Content = resp_Content resp, Usage = resp_Usage resp,
                     res_Model = resp_Model resp, res_Rendered = rendered,
                     Attempts = attempts + 1\<rparr>" "er = None" "w' = w1"
        by simp_all
      with cw1 Inr show ?thesis
        by (intro exI[of _ "[(creq, r)]"]) simp
    next
      case (Inl x)
      show ?thesis
      proof (cases "attempt = MaxRetries e")
        case True
        with run pc Inl have "res = None" "er = Some (ExecutorAfter (attempts + 1) (Some x))" "w' = w1"
          by simp_all
        with cw1 Inl True show ?thesis
          by (intro exI[of _ "[(creq, r)]"]) simp
      next
        case ne: False
        let ?w2 = "(case Backoff e of None \<Rightarrow> w1 | Some b \<Rightarrow> Sleep (b attempt) w1)"
        have c2: "calls ?w2 = calls w1" by (simp split: option.splits)
        from run True ne pc Inl
        have rec: "attempt_loop e c creq rendered (attempt + 1) (attempts + 1) (Some x) ?w2 = ((res, er), w')"
          by simp
        from "1.IH"[OF True pc[symmetric] Inl ne rec]
        obtain new where n1: "calls w' = calls ?w2 @ new" and n2: "\<forall>x\<in>set new. fst x = creq"
          and n3: "(case res of
        Some r \<Rightarrow> er = None \<and> new \<noteq> [] \<and> (\<forall>x\<in>set (butlast new). isl (snd x)) \<and>
          Attempts r = (attempts + 1) + int (length new) \<and>
          (\<exists>resp. snd (last new) = Inr resp \<and> Content r = resp_Content resp)
      | None \<Rightarrow> (\<forall>x\<in>set new. isl (snd x)) \<and>
          int (length new) = max 0 (MaxRetries e + 1 - (attempt + 1)) \<and>
          er = Some (ExecutorAfter ((attempts + 1) + int (length new))
                 (if new = [] then Some x else Some (projl (snd (last new))))))"
          by blast
        show ?thesis
        proof (intro exI[of _ "(creq, r) # new"] conjI)
          show "calls w' = calls w @ (creq, r) # new" using n1 c2 cw1 by simp
          show "\<forall>x\<in>set ((creq, r) # new). fst x = creq" using n2 by simp
          show "case res of
        Some ra \<Rightarrow> er = None \<and> (creq, r) # new \<noteq> [] \<and> (\<forall>x\<in>set (butlast ((creq, r) # new)). isl (snd x)) \<and>
          Attempts ra = attempts + int (length ((creq, r) # new)) \<and>
          (\<exists>resp. snd (last ((creq, r) # new)) = Inr resp \<and> Content ra = resp_Content resp)
      | None \<Rightarrow> (\<forall>x\<in>set ((creq, r) # new). isl (snd x)) \<and>
          int (length ((creq, r) # new)) = max 0 (MaxRetries e + 1 - attempt) \<and>
          er = Some (ExecutorAfter (attempts + int (length ((creq, r) # new)))
                 (if (creq, r) # new = [] then lastErr else Some (projl (snd (last ((creq, r) # new))))))"
          proof (cases res)
            case None
            with n3 Inl True ne show ?thesis by (cases "new = []") auto
          next
            case (Some ra)
            with n3 Inl show ?thesis by auto
          qed
        qed
      qed
    qed
  qed
qed


lemma Render_calls: "Render p c inp w = (r, w1) \<Longrightarrow> calls w1 = calls w"
  by (auto simp: Render_def Let_def split: option.splits)

lemma Execute_unrendered:
  assumes ex: "Execute e c req w = ((res, er), w')"
      and nr: "Prompt req = None \<or> (\<exists>p. Prompt req = Some p \<and> isl (fst (Render p c (Input req) w)))"
  shows "calls w' = calls w \<and> res = None"
proof (cases "Prompt req")
  case None
  with ex show ?thesis by (simp add: Execute_def)
next
  case (Some p)
  with nr obtain x w1 where r: "Render p c (Input req) w = (Inl x, w1)"
    by (cases "Render p c (Input req) w") (auto simp: isl_def)
  from ex Some r have "w' = w1" "res = None" by (simp_all add: Execute_def)
  with Render_calls[OF r] show ?thesis by simp
qed

lemma Execute_trace:
  assumes pr: "Prompt req = Some p"
      and rd: "fst (Render p c (Input req) w) = Inr rd"
      and ex: "Execute e c req w = ((res, er), w')"
  shows "\<exists>new. calls w' = calls w @ new \<and>
     (\<forall>x\<in>set new. req_Model (fst x) = (if Model req = [] then ''gpt-3.5-turbo'' else Model req)) \<and>
     (case res of
        Some r \<Rightarrow> er = None \<and> new \<noteq> [] \<and> (\<forall>x\<in>set (butlast new). isl (snd x)) \<and>
          Attempts r = int (length new) \<and>
          (\<exists>resp. snd (last new) = Inr resp \<and> Content r = resp_Content resp)
      | None \<Rightarrow> (\<forall>x\<in>set new. isl (snd x)) \<and>
          int (length new) = max 0 (MaxRetries e + 1) \<and>
          er = Some (ExecutorAfter (int (length new))
                 (if new = [] then None else Some (projl (snd (last new))))))"
proof -
  obtain w1 where r1: "Render p c (Input req) w = (Inr rd, w1)"
    using rd by (cases "Render p c (Input req) w") auto
  have c1: "calls w1 = calls w" using r1 by (rule Render_calls)
  from ex pr r1 obtain c1' creq where
    al: "attempt_loop e c1' creq rd 0 0 None w1 = ((res, er), w')"
    and m: "req_Model creq = (if Model req = [] then ''gpt-3.5-turbo'' else Model req)"
    by (auto simp: Execute_def Let_def split: if_splits)
  from attempt_loop_trace[OF al] obtain new where
    n1: "calls w' = calls w1 @ new" and n2: "\<forall>x\<in>set new. fst x = creq" and
    n3: "(case res of
        Some r \<Rightarrow> er = None \<and> new \<noteq> [] \<and> (\<forall>x\<in>set (butlast new). isl (snd x)) \<and>
          Attempts r = 0 + int (length new) \<and>
          (\<exists>resp. snd (last new) = Inr resp \<and> Content r = resp_Content resp)
      | None \<Rightarrow> (\<forall>x\<in>set new. isl (snd x)) \<and>
          int (length new) = max 0 (MaxRetries e + 1 - 0) \<and>
          er = Some (ExecutorAfter (0 + int (length new))
                 (if new = [] then None else Some (projl (snd (last new))))))"
    by blast
  show ?thesis
  proof (intro exI[of _ new] conjI)
    show "calls w' = calls w @ new" using n1 c1 by simp
    show "\<forall>x\<in>set new. req_Model (fst x) = (if Model req = [] then ''gpt-3.5-turbo'' else Model req)"
      using n2 m by simp
    show "case res of
        Some r \<Rightarrow> er = None \<and> new \<noteq> [] \<and> (\<forall>x\<in>set (butlast new). isl (snd x)) \<and>
          Attempts r = int (length new) \<and>
          (\<exists>resp. snd (last new) = Inr resp \<and> Content r = resp_Content resp)
      | None \<Rightarrow> (\<forall>x\<in>set new. isl (snd x)) \<and>
          int (length new) = max 0 (MaxRetries e + 1) \<and>
          er = Some (ExecutorAfter (int (length new))
                 (if new = [] then None else Some (projl (snd (last new)))))"
      using n3 by (cases res) simp_all
  qed
qed

text \<open>The definitions unfolded to run the executor on concrete values.\<close>

lemmas run_defs = Execute_def retrying_def flaky_def ask_def say_def start_def Render_def
  attempt_loop.simps provider_Complete_def background_def Sleep_def ok_response_def new_calls_def
  echo_def Let_def

text \<open>
  Claim C3. Let the request have a prompt that renders, and let \<open>MaxRetries = n\<close> be
  non-negative. If every call of \<open>Complete\<close> that \<open>Execute\<close> makes fails, it makes exactly
  \<open>n + 1\<close> of them and returns no result, with the error \<open>executor after n+1 attempts\<close>
  wrapping the error of the last call. If some call succeeds, it is the last call that
  \<open>Execute\<close> makes, every call before it failed, and \<open>Execute\<close> returns a result and no
  error, with the content of that response and with \<open>Attempts\<close> the number of calls
  made, which is the 1-based index of the succeeding one.
\<close>

theorem Execute_attempts:
  assumes pr: "Prompt req = Some p"
      and rd: "fst (Render p c (Input req) w) = Inr rd"
      and n: "0 \<le> MaxRetries e"
      and ex: "Execute e c req w = ((res, er), w')"
  shows "((\<forall>x\<in>set (new_calls w w'). isl (snd x)) \<longrightarrow>
            int (length (new_calls w w')) = MaxRetries e + 1 \<and> res = None \<and>
            (\<exists>x. snd (last (new_calls w w')) = Inl x \<and>
                 er = Some (ExecutorAfter (MaxRetries e + 1) (Some x)))) \<and>
         ((\<exists>x\<in>set (new_calls w w'). \<not> isl (snd x)) \<longrightarrow>
            (\<exists>r resp. res = Some r \<and> er = None \<and>
               Attempts r = int (length (new_calls w w')) \<and>
               snd (last (new_calls w w')) = Inr resp \<and> Content r = resp_Content resp \<and>
               (\<forall>x\<in>set (butlast (new_calls w w')). isl (snd x))))"
proof -
  from Execute_trace[OF pr rd ex] obtain new where
    n1: "calls w' = calls w @ new" and
    n3: "(case res of
        Some r \<Rightarrow> er = None \<and> new \<noteq> [] \<and> (\<forall>x\<in>set (butlast new). isl (snd x)) \<and>
          Attempts r = int (length new) \<and>
          (\<exists>resp. snd (last new) = Inr resp \<and> Content r = resp_Content resp)
      | None \<Rightarrow> (\<forall>x\<in>set new. isl (snd x)) \<and>
          int (length new) = max 0 (MaxRetries e + 1) \<and>
          er = Some (ExecutorAfter (int (length new))
                 (if new = [] then None else Some (projl (snd (last new))))))"
    by blast
  have nc: "new_calls w w' = new" using n1 by (simp add: new_calls_def)
  show ?thesis
  proof (cases res)
    case None
    with n3 n have all: "\<forall>x\<in>set new. isl (snd x)" and len: "int (length new) = MaxRetries e + 1"
      and er: "er = Some (ExecutorAfter (int (length new))
                 (if new = [] then None else Some (projl (snd (last new)))))"
      by simp_all
    from len n have ne: "new \<noteq> []" by auto
    then have "last new \<in> set new" by simp
    with all have "isl (snd (last new))" by blast
    then obtain x where x: "snd (last new) = Inl x" by (auto simp: isl_def)
    from all have no: "\<not> (\<exists>x\<in>set new. \<not> isl (snd x))" by blast
    from None len er ne x no show ?thesis unfolding nc by simp
  next
    case (Some r)
    with n3 have a: "er = None" "new \<noteq> []" "\<forall>x\<in>set (butlast new). isl (snd x)"
      "Attempts r = int (length new)"
      and b: "\<exists>resp. snd (last new) = Inr resp \<and> Content r = resp_Content resp"
      by simp_all
    from b obtain resp where resp: "snd (last new) = Inr resp" "Content r = resp_Content resp"
      by blast
    from a(2) have "last new \<in> set new" by simp
    with resp(1) have notall: "\<not> (\<forall>x\<in>set new. isl (snd x))" by force
    from Some a resp notall show ?thesis unfolding nc by auto
  qed
qed

theorem Execute_attempts_witness:
  "map_option Attempts (fst (fst (Execute (retrying (flaky 2) 2) background (ask ''hi'') start))) = Some 3 \<and>
   map_option Content (fst (fst (Execute (retrying (flaky 2) 2) background (ask ''hi'') start))) = Some ''ok'' \<and>
   length (new_calls start (snd (Execute (retrying (flaky 5) 2) background (ask ''hi'') start))) = 3 \<and>
   fst (Execute (retrying (flaky 5) 2) background (ask ''hi'') start)
     = (None, Some (ExecutorAfter 3 (Some (Failure ''unavailable''))))"
proof -
  let ?X = "Execute (retrying (flaky 2) 2) background (ask ''hi'') start"
  let ?Y = "Execute (retrying (flaky 5) 2) background (ask ''hi'') start"
  have pr: "Prompt (ask ''hi'') = Some (say ''hi'')" by (simp add: ask_def)
  have rd: "fst (Render (say ''hi'') background (Input (ask ''hi'')) start)
      = Inr \<lparr>System = [], User = ''hi'', Rendered_Input = Map.empty\<rparr>"
    by (simp add: Render_def say_def ask_def)
  have n2: "0 \<le> MaxRetries (retrying (flaky 2) 2)" and n5: "0 \<le> MaxRetries (retrying (flaky 5) 2)"
    by (simp_all add: retrying_def)
  have exX: "?X = ((fst (fst ?X), snd (fst ?X)), snd ?X)" by simp
  have exY: "?Y = ((fst (fst ?Y), snd (fst ?Y)), snd ?Y)" by simp
  have someX: "\<exists>x\<in>set (new_calls start (snd ?X)). \<not> isl (snd x)"
    by (simp add: run_defs)
  have lenX: "length (new_calls start (snd ?X)) = 3"
    and lastX: "snd (last (new_calls start (snd ?X))) = Inr ok_response"
    by (simp_all add: run_defs)
  have allY: "\<forall>x\<in>set (new_calls start (snd ?Y)). isl (snd x)"
    by (simp add: run_defs)
  have lastY: "snd (last (new_calls start (snd ?Y))) = Inl (Failure ''unavailable'')"
    and mY: "MaxRetries (retrying (flaky 5) 2) = 2"
    by (simp_all add: run_defs)
  from Execute_attempts[OF pr rd n2 exX] someX lenX lastX
  have X: "map_option Attempts (fst (fst ?X)) = Some 3 \<and>
           map_option Content (fst (fst ?X)) = Some ''ok''"
    by (auto simp: ok_response_def)
  from Execute_attempts[OF pr rd n5 exY] allY lastY mY
  have Y: "length (new_calls start (snd ?Y)) = 3 \<and>
           fst ?Y = (None, Some (ExecutorAfter 3 (Some (Failure ''unavailable''))))"
    by (auto simp: prod_eq_iff)
  from X Y show ?thesis by simp
qed

text \<open>
  Claim C10. When the request's \<open>Model\<close> is the empty string, every completion request
  that \<open>Execute\<close> hands to the provider has the model \<open>gpt-3.5-turbo\<close>; and there is such
  a request whenever the prompt renders and \<open>MaxRetries\<close> is not negative.
\<close>

theorem Execute_defaults_model:
  assumes m: "Model req = []"
      and ex: "Execute e c req w = ((res, er), w')"
  shows "(\<forall>x\<in>set (new_calls w w'). req_Model (fst x) = ''gpt-3.5-turbo'') \<and>
         (0 \<le> MaxRetries e \<and> (\<exists>p rd. Prompt req = Some p \<and>
             fst (Render p c (Input req) w) = Inr rd) \<longrightarrow> new_calls w w' \<noteq> [])"
proof (cases "Prompt req = None \<or> (\<exists>p. Prompt req = Some p \<and> isl (fst (Render p c (Input req) w)))")
  case True
  from Execute_unrendered[OF ex True] have "new_calls w w' = []" by (simp add: new_calls_def)
  moreover from True have "\<not> (\<exists>p rd. Prompt req = Some p \<and>
             fst (Render p c (Input req) w) = Inr rd)" by auto
  ultimately show ?thesis by simp
next
  case False
  then obtain p rd where pr: "Prompt req = Some p" and rd: "fst (Render p c (Input req) w) = Inr rd"
    by (cases "Prompt req"; cases "fst (Render (the (Prompt req)) c (Input req) w)") auto
  from Execute_trace[OF pr rd ex] m obtain new where
    n1: "calls w' = calls w @ new" and
    n2: "\<forall>x\<in>set new. req_Model (fst x) = ''gpt-3.5-turbo''" and
    n3: "(case res of
        Some r \<Rightarrow> er = None \<and> new \<noteq> [] \<and> (\<forall>x\<in>set (butlast new). isl (snd x)) \<and>
          Attempts r = int (length new) \<and>
          (\<exists>resp. snd (last new) = Inr resp \<and> Content r = resp_Content resp)
      | None \<Rightarrow> (\<forall>x\<in>set new. isl (snd x)) \<and>
          int (length new) = max 0 (MaxRetries e + 1) \<and>
          er = Some (ExecutorAfter (int (length new))
                 (if new = [] then None else Some (projl (snd (last new))))))"
    by auto
  have nc: "new_calls w w' = new" using n1 by (simp add: new_calls_def)
  have "new \<noteq> []" if "0 \<le> MaxRetries e"
    using n3 that by (cases res) auto
  with n2 show ?thesis unfolding nc by blast
qed

theorem Execute_defaults_model_witness:
  "map (req_Model \<circ> fst) (new_calls start (snd (Execute (retrying echo 0) background (ask ''hi'') start)))
     = [''gpt-3.5-turbo'']"
proof -
  let ?X = "Execute (retrying echo 0) background (ask ''hi'') start"
  have m: "Model (ask ''hi'') = []" by (simp add: ask_def)
  have ex: "?X = ((fst (fst ?X), snd (fst ?X)), snd ?X)" by simp
  have len: "length (new_calls start (snd ?X)) = 1" by (simp add: run_defs)
  then obtain x where x: "new_calls start (snd ?X) = [x]"
    by (cases "new_calls start (snd ?X)") auto
  from Execute_defaults_model[OF m ex] x show ?thesis by simp
qed

text \<open>
  The attempt loop run against a service with renamed errors goes through the same
  states, up to the renaming in the log.
\<close>

lemma provider_Complete_relabel:
  assumes "provider_Complete p c rq w = (r, w1)"
  shows "provider_Complete (relabel f p) c rq (w\<lparr>calls := cs\<rparr>)
           = (map_sum f id r, w1\<lparr>calls := cs @ [(rq, map_sum f id r)]\<rparr>)"
  using assms by (auto simp: provider_Complete_def relabel_def split: prod.splits)

lemma new_calls_step:
  "calls w1 = calls w @ [x] \<Longrightarrow> calls w' = calls w1 @ new \<Longrightarrow> new_calls w w' = x # new"
  by (simp add: new_calls_def)

lemma attempt_loop_relabel:
  "attempt_loop e c creq rd a n le w = ((res, er), w') \<Longrightarrow>
   attempt_loop (e\<lparr>Provider := relabel f (Provider e)\<rparr>) c creq rd a n (map_option f le)
       (w\<lparr>calls := cs\<rparr>)
     = ((res, map_option (relabel_err f) er),
        w'\<lparr>calls := cs @ map (relabel_call f) (new_calls w w')\<rparr>)"
proof (induction e c creq rd a n le w arbitrary: res er w' cs rule: attempt_loop.induct)
  case (1 e c creq rendered attempt attempts lastErr w)
  let ?e' = "e\<lparr>Provider := relabel f (Provider e)\<rparr>"
  note st = attempt_loop.simps[of e c creq rendered attempt attempts lastErr w]
  note st' = attempt_loop.simps[of ?e' c creq rendered attempt attempts "map_option f lastErr"
      "w\<lparr>calls := cs\<rparr>"]
  note run = "1.prems"[unfolded st]
  show ?case
  proof (cases "attempt \<le> MaxRetries e")
    case False
    with run have "res = None" "er = Some (ExecutorAfter attempts lastErr)" "w' = w"
      by simp_all
    with False show ?thesis
      by (subst st') (simp add: new_calls_def)
  next
    case True
    obtain r w1 where pc: "provider_Complete (Provider e) c creq w = (r, w1)"
      by (cases "provider_Complete (Provider e) c creq w")
    note cw1 = provider_Complete_calls[OF pc]
    note pc' = provider_Complete_relabel[OF pc, of f cs]
    show ?thesis
    proof (cases r)
      case (Inr resp)
      with run True pc have r: "res = Some \<lparr>Content = resp_Content resp, Usage = resp_Usage resp,
                     res_Model = resp_Model resp, res_Rendered = rendered,
                     Attempts = attempts + 1\<rparr>" "er = None" "w' = w1"
        by simp_all
      have nc: "new_calls w w' = [(creq, r)]" using r cw1 by (simp add: new_calls_def)
      from True pc' Inr r nc show ?thesis
        by (subst st') (simp add: relabel_call_def)
    next
      case (Inl x)
      show ?thesis
      proof (cases "attempt = MaxRetries e")
        case True
        with run pc Inl have r: "res = None"
          "er = Some (ExecutorAfter (attempts + 1) (Some x))" "w' = w1"
          by simp_all
        have nc: "new_calls w w' = [(creq, r)]" using r cw1 by (simp add: new_calls_def)
        from True pc' Inl r nc show ?thesis
          by (subst st') (simp add: relabel_call_def)
      next
        case ne: False
        let ?w2 = "(case Backoff e of None \<Rightarrow> w1 | Some b \<Rightarrow> Sleep (b attempt) w1)"
        from run True ne pc Inl
        have rec: "attempt_loop e c creq rendered (attempt + 1) (attempts + 1) (Some x) ?w2
                     = ((res, er), w')"
          by simp
        from attempt_loop_trace[OF rec] obtain new where n1: "calls w' = calls ?w2 @ new"
          by blast
        have c2: "calls ?w2 = calls w1" by (simp split: option.splits)
        have nc: "new_calls w w' = (creq, r) # new_calls ?w2 w'"
          using n1 c2 cw1 by (simp add: new_calls_def)
        let ?cs = "cs @ [(creq, Inl (f x))]"
        have w2': "(case Backoff e of None \<Rightarrow> w1\<lparr>calls := ?cs\<rparr>
                     | Some b \<Rightarrow> Sleep (b attempt) (w1\<lparr>calls := ?cs\<rparr>))
                   = ?w2\<lparr>calls := ?cs\<rparr>"
          by (simp add: Sleep_def split: option.splits)
        have pcx: "provider_Complete (relabel f (Provider e)) c creq (w\<lparr>calls := cs\<rparr>)
                     = (Inl (f x), w1\<lparr>calls := ?cs\<rparr>)"
          using pc' Inl by simp
        have ih: "attempt_loop ?e' c creq rendered (attempt + 1) (attempts + 1) (Some (f x))
                    (?w2\<lparr>calls := ?cs\<rparr>)
                  = ((res, map_option (relabel_err f) er),
                     w'\<lparr>calls := ?cs @ map (relabel_call f) (new_calls ?w2 w')\<rparr>)"
          using "1.IH"[OF True pc[symmetric] Inl ne rec, of ?cs] by simp
        have "attempt_loop ?e' c creq rendered attempt attempts (map_option f lastErr)
                (w\<lparr>calls := cs\<rparr>)
              = attempt_loop ?e' c creq rendered (attempt + 1) (attempts + 1) (Some (f x))
                    (?w2\<lparr>calls := ?cs\<rparr>)"
          using True ne pcx by (subst st') (simp add: w2')
        also note ih
        finally show ?thesis using nc Inl by (simp add: relabel_call_def)
      qed
    qed
  qed
qed

text \<open>
  Claim C1, as amended. \<open>Execute\<close> retries a failed \<open>Complete\<close> whatever the error is: run
  against a service whose errors are renamed by any function \<open>f\<close> (for instance into
  \<open>context.Canceled\<close>), it makes the same calls with the same requests, ends at the same
  instant with the service in the same state, and returns the same result; only the
  errors in the log, and the one wrapped in the error returned after the last attempt,
  are renamed. So a cancellation error is retried exactly as a service error is.
\<close>

theorem Execute_retries_whatever_the_error:
  assumes ex: "Execute e c req w = ((res, er), w')"
  shows "Execute (e\<lparr>Provider := relabel f (Provider e)\<rparr>) c req w
           = ((res, map_option (relabel_err f) er),
              w'\<lparr>calls := calls w @ map (relabel_call f) (new_calls w w')\<rparr>)"
proof (cases "Prompt req")
  case None
  with ex show ?thesis by (auto simp: Execute_def new_calls_def)
next
  case (Some p)
  obtain r w1 where rn: "Render p c (Input req) w = (r, w1)"
    by (cases "Render p c (Input req) w")
  note c1 = Render_calls[OF rn]
  show ?thesis
  proof (cases r)
    case (Inl x)
    with ex Some rn c1 show ?thesis by (auto simp: Execute_def new_calls_def)
  next
    case (Inr rd)
    let ?e' = "e\<lparr>Provider := relabel f (Provider e)\<rparr>"
    from ex Some rn Inr obtain c' creq where
      al: "attempt_loop e c' creq rd 0 0 None w1 = ((res, er), w')" and
      ex': "Execute ?e' c req w = attempt_loop ?e' c' creq rd 0 0 None w1"
      by (simp add: Execute_def Let_def)
    have nc: "new_calls w1 w' = new_calls w w'" using c1 by (simp add: new_calls_def)
    have id: "w1\<lparr>calls := calls w1\<rparr> = w1" by simp
    have "attempt_loop ?e' c' creq rd 0 0 None w1
            = ((res, map_option (relabel_err f) er),
               w'\<lparr>calls := calls w1 @ map (relabel_call f) (new_calls w1 w')\<rparr>)"
      using attempt_loop_relabel[OF al, of f "calls w1"] unfolding id by simp
    with c1 nc ex' show ?thesis by simp
  qed
qed

theorem Execute_retries_whatever_the_error_witness:
  "fst (Execute ((retrying (flaky 5) 2)\<lparr>Provider := relabel (\<lambda>x. Canceled) (flaky 5)\<rparr>)
          background (ask ''hi'') start)
     = (None, Some (ExecutorAfter 3 (Some Canceled))) \<and>
   map snd (calls (snd (Execute ((retrying (flaky 5) 2)\<lparr>Provider := relabel (\<lambda>x. Canceled) (flaky 5)\<rparr>)
          background (ask ''hi'') start)))
     = [Inl Canceled, Inl Canceled, Inl Canceled]"
proof -
  let ?Y = "Execute (retrying (flaky 5) 2) background (ask ''hi'') start"
  have ex: "?Y = ((fst (fst ?Y), snd (fst ?Y)), snd ?Y)" by simp
  have p: "Provider (retrying (flaky 5) 2) = flaky 5" by (simp add: retrying_def)
  have a: "fst (fst ?Y) = None"
    and b: "snd (fst ?Y) = Some (ExecutorAfter 3 (Some (Failure ''unavailable'')))"
    and c: "map snd (new_calls start (snd ?Y))
              = [Inl (Failure ''unavailable''), Inl (Failure ''unavailable''),
                 Inl (Failure ''unavailable'')]"
    and d: "calls start = []"
    by (simp_all add: run_defs)
  have e: "map snd (map (relabel_call (\<lambda>x. Canceled)) (new_calls start (snd ?Y)))
             = map (map_sum (\<lambda>x. Canceled) id) (map snd (new_calls start (snd ?Y)))"
    by (simp add: relabel_call_def comp_def)
  from Execute_retries_whatever_the_error[OF ex, of "\<lambda>x. Canceled"] p a b c d e
  show ?thesis by simp
qed

text \<open>
  Claim C1 as stated fails. A service whose first call fails with \<open>context.Canceled\<close> and
  whose second call succeeds: with one retry allowed, \<open>Execute\<close> calls it twice and returns
  the result with \<open>Attempts = 2\<close>, so the cancellation error was retried and not
  propagated. And with a backoff of 10ns and a context cancelled at instant 5, during the
  sleep, \<open>Execute\<close> sleeps until instant 10, calls the service a second time and returns
  the service's error, not the cancellation error.
\<close>

theorem cancellation_is_retried_counterexample:
  "map_option Attempts (fst (fst (Execute (retrying cancelled_once 1) background (ask ''hi'') start)))
     = Some 2 \<and>
   map snd (calls (snd (Execute (retrying cancelled_once 1) background (ask ''hi'') start)))
     = [Inl Canceled, Inr ok_response] \<and>
   ctx_Err cancelled_at_5 5 = Some Canceled \<and>
   now (snd (Execute sleepy cancelled_at_5 (ask ''hi'') start)) = 10 \<and>
   length (calls (snd (Execute sleepy cancelled_at_5 (ask ''hi'') start))) = 2 \<and>
   snd (fst (Execute sleepy cancelled_at_5 (ask ''hi'') start))
     = Some (ExecutorAfter 2 (Some (Failure ''unavailable'')))"
  by (simp add: run_defs cancelled_once_def sleepy_def cancelled_at_5_def ctx_Err_def reached_def)

subsection \<open>Chain\<close>

text \<open>The definitions unfolded to run a chain on concrete values.\<close>

lemmas chain_defs = Chain_Execute_def runParallel_def runStep_def runStep_loop.simps
  step_ctx_def step_request_def render_only_def skipped_def chain_of_def step_def picky_def
  seq_def par_def wait_backoff_def doneAt_def



text \<open>\<open>launch\<close> over a list of steps is \<open>launch\<close> over a prefix followed by the rest.\<close>

lemma launch_append:
  "launch ch c (xs @ zs) inp result w =
     (case launch ch c xs inp result w of
        (ps, w1) \<Rightarrow> (case launch ch c zs inp result w1 of (qs, w2) \<Rightarrow> (ps @ qs, w2)))"
  by (induction xs arbitrary: w) (auto split: prod.splits)

text \<open>
  Claim C8. Let a step's condition be false for the current result. In a sequential node
  the step is passed over: the loop continues with the next step from the same result,
  the same input and the same world, so a node made of this step alone changes nothing:
  no entry is written, nothing is rendered (the log of renders is part of the world),
  the provider is not called (the log of calls is too), and no error arises. In a
  parallel group the step is not launched: the group behaves as the group without that
  step, and a group of this step alone returns no outputs and no error in an unchanged
  world.
\<close>

theorem skipped_step_has_no_effect:
  assumes cond: "condition s = Some f"
      and no: "\<not> f c \<lparr>outputs = result\<rparr>"
  shows "exec_steps ch c (s # ss) (result, inp, w) = exec_steps ch c ss (result, inp, w) \<and>
         exec_nodes ch c (\<lparr>parallel = False, steps = [s]\<rparr> # ns) (result, inp, w)
           = exec_nodes ch c ns (result, inp, w) \<and>
         runParallel ch c (xs @ s # ys) inp result w = runParallel ch c (xs @ ys) inp result w \<and>
         runParallel ch c [s] inp result w = ((Some Map.empty, None), w)"
proof -
  have sk: "skipped s c result" using cond no by (simp add: skipped_def)
  have l: "launch ch c (s # ys) inp result v = launch ch c ys inp result v" for v
    using sk by simp
  have "launch ch c (xs @ s # ys) inp result w = launch ch c (xs @ ys) inp result w"
    using sk by (simp add: launch_append[of ch c xs "s # ys"] launch_append[of ch c xs ys]
                     split: prod.splits)
  then have p: "runParallel ch c (xs @ s # ys) inp result w = runParallel ch c (xs @ ys) inp result w"
    by (simp add: runParallel_def)
  from sk p show ?thesis by (simp add: runParallel_def)
qed

theorem skipped_step_has_no_effect_witness:
  "Chain_Execute (chain_of picky [seq (never ''a'')]) background Map.empty start
     = ((Some \<lparr>outputs = Map.empty\<rparr>, None), start) \<and>
   runParallel (chain_of picky []) background [never ''a''] Map.empty Map.empty start
     = ((Some Map.empty, None), start)"
proof -
  have cond: "condition (never ''a'') = Some (\<lambda>c r. False)" by (simp add: never_def step_def)
  have no: "\<not> (\<lambda>c r. False) background \<lparr>outputs = Map.empty\<rparr>" by simp
  note t = skipped_step_has_no_effect[OF cond no, where ch = "chain_of picky [seq (never ''a'')]"
      and ss = "[]" and ns = "[]" and inp = Map.empty and w = start]
  note u = skipped_step_has_no_effect[OF cond no, where ch = "chain_of picky []"
      and inp = Map.empty and w = start]
  have n: "nodes (chain_of picky [seq (never ''a'')]) = [\<lparr>parallel = False, steps = [never ''a'']\<rparr>]"
    by (simp add: chain_of_def seq_def)
  from t u n show ?thesis by (simp add: Chain_Execute_def)
qed

text \<open>
  Claim C7, at the input where it fails. The service \<open>picky\<close> rejects the one step of the
  chain, which has no retries and no fallback. As a sequential step, the error that
  \<open>Chain.Execute\<close> returns is \<open>chain step "bad": ...\<close>; as the one step of a parallel
  group it is the bare error of the executor, without the step's name.
\<close>

theorem parallel_step_error_lacks_step_name:
  "snd (fst (Chain_Execute (chain_of picky [par [step ''bad'']]) background Map.empty start))
     = Some (ExecutorAfter 1 (Some (Failure ''rejected''))) \<and>
   snd (fst (Chain_Execute (chain_of picky [seq (step ''bad'')]) background Map.empty start))
     = Some (ChainStepErr ''bad'' (ExecutorAfter 1 (Some (Failure ''rejected''))))"
  by (simp add: chain_defs run_defs)

text \<open>
  When the primary task has failed all its retries and a fallback is set, the retry loop
  returns what the one execution of the fallback gives: its content, or the error
  \<open>step and fallback failed\<close> around the primary's last error. \<open>Execute\<close> returns either a
  result or an error, never both and never neither.
\<close>

lemma runStep_loop_fallback:
  "primary_fails ex s c req a w = Some (er, w1) \<Longrightarrow> fallback s = Some fb \<Longrightarrow>
   Execute ex c (req\<lparr>Prompt := Some fb\<rparr>) w1 = ((res, fer), w2) \<Longrightarrow>
   runStep_loop ex s c req a w
     = (Some (case fer of
                Some e2 \<Rightarrow> ([], Some (StepAndFallbackFailed er))
              | None \<Rightarrow> (case res of Some r \<Rightarrow> (Content r, None)
                         | None \<Rightarrow> ([], Some NilDereference))), w2)"
proof (induction ex s c req a w rule: primary_fails.induct)
  case (1 ex s c req attempt w)
  note pf = primary_fails.simps[of ex s c req attempt w]
  note rl = runStep_loop.simps[of ex s c req attempt w]
  note run = "1.prems"(1)[unfolded pf]
  note fb = "1.prems"(2)
  note out = "1.prems"(3)
  from run have le: "attempt \<le> maxRetries s" by (simp split: if_splits)
  obtain res0 e0 v where ex: "Execute ex c req w = ((res0, e0), v)"
    by (cases "Execute ex c req w") auto
  from run le ex obtain x where e0: "e0 = Some x" by (cases e0) auto
  show ?case
  proof (cases "attempt = maxRetries s")
    case True
    with run le ex e0 have "x = er" "v = w1" by simp_all
    with True le ex e0 fb out show ?thesis
      by (subst rl) (cases fer; cases res; simp)
  next
    case ne: False
    show ?thesis
    proof (cases "backoff s")
      case None
      with run le ex e0 ne have rec: "primary_fails ex s c req (attempt + 1) v = Some (er, w1)"
        by simp
      note ih = "1.IH"(1)[OF le ex[symmetric] refl e0 ne None rec fb out]
      from le ex e0 ne None show ?thesis by (subst rl) (simp add: ih)
    next
      case (Some b)
      obtain ce v2 where wb: "wait_backoff c (b attempt) v = (ce, v2)"
        by (cases "wait_backoff c (b attempt) v")
      from run le ex e0 ne Some wb have ce: "ce = None"
        and rec: "primary_fails ex s c req (attempt + 1) v2 = Some (er, w1)"
        by (cases ce; simp)+
      note ih = "1.IH"(2)[OF le ex[symmetric] refl e0 ne Some wb[symmetric] ce rec fb out]
      from le ex e0 ne Some wb ce show ?thesis by (subst rl) (simp add: ih)
    qed
  qed
qed

lemma attempt_loop_pair:
  "attempt_loop e c creq rd a n le w = ((res, er), w') \<Longrightarrow> (res = None) \<noteq> (er = None)"
  using attempt_loop_trace[of e c creq rd a n le w res er w'] by (cases res) auto

lemma Execute_pair:
  assumes "Execute e c req w = ((res, er), w')"
  shows "(res = None) \<noteq> (er = None)"
proof (cases "Prompt req")
  case None
  with assms show ?thesis by (auto simp: Execute_def)
next
  case (Some p)
  obtain r w1 where rn: "Render p c (Input req) w = (r, w1)"
    by (cases "Render p c (Input req) w")
  show ?thesis
  proof (cases r)
    case (Inl x)
    with assms Some rn show ?thesis by (auto simp: Execute_def)
  next
    case (Inr rd)
    with assms Some rn obtain c' creq where
      "attempt_loop e c' creq rd 0 0 None w1 = ((res, er), w')"
      by (simp add: Execute_def Let_def)
    then show ?thesis by (rule attempt_loop_pair)
  qed
qed

text \<open>
  Claim C6. Take a chain with an executor and a step with a fallback whose primary task
  fails all its retries, the last of them with the error \<open>er\<close>, and look at the execution
  of the fallback prompt that follows. If it succeeds, \<open>runStep\<close> returns its content and
  no error; the step, when its condition does not skip it, then writes that content
  under its name into the result (as a sequential step, and likewise as the step of a
  parallel group), with no error. If it fails, the error is
  \<open>step and fallback failed\<close> wrapping \<open>er\<close>, the primary's error, and not the fallback's;
  a sequential step reports it as the chain's error under the step's name.
\<close>

theorem fallback_output_or_original_error:
  assumes ex: "exec ch = Some ex"
      and fb: "fallback s = Some fb"
      and pf: "primary_fails ex s (step_ctx s c (now w)) (step_request ch s inp) 0 w = Some (er, w1)"
      and out: "Execute ex (step_ctx s c (now w)) ((step_request ch s inp)\<lparr>Prompt := Some fb\<rparr>) w1
                  = ((res, fer), w2)"
      and ns: "\<not> skipped s c result"
  shows "(fer = None \<longrightarrow>
            (\<exists>r. res = Some r \<and>
               runStep ch c s inp w = ((Content r, None), w2) \<and>
               exec_steps ch c [s] (result, inp, w)
                 = (None, result(name s \<mapsto> Content r), inp(name s \<mapsto> Content r), w2) \<and>
               runParallel ch c [s] inp result w
                 = ((Some [name s \<mapsto> Content r], None), w2))) \<and>
         (fer \<noteq> None \<longrightarrow>
            runStep ch c s inp w = (([], Some (StepAndFallbackFailed er)), w2) \<and>
            exec_steps ch c [s] (result, inp, w)
              = (Some (ChainStepErr (name s) (StepAndFallbackFailed er)), result, inp, w2) \<and>
            runParallel ch c [s] inp result w = ((None, Some (StepAndFallbackFailed er)), w2))"
proof -
  note l = runStep_loop_fallback[OF pf fb out]
  note xo = Execute_pair[OF out]
  show ?thesis
  proof (cases fer)
    case None
    with xo obtain r where r: "res = Some r" by auto
    from l None r ex have rs: "runStep ch c s inp w = ((Content r, None), w2)"
      by (simp add: runStep_def)
    from rs ns None r show ?thesis by (simp add: runParallel_def)
  next
    case (Some e2)
    from l Some ex have rs: "runStep ch c s inp w = (([], Some (StepAndFallbackFailed er)), w2)"
      by (simp add: runStep_def)
    from rs ns Some show ?thesis by (simp add: runParallel_def)
  qed
qed

theorem fallback_output_or_original_error_witness:
  "fst (runStep (chain_of picky []) background (with_fallback ''plan b'') Map.empty start)
     = (''plan b'', None) \<and>
   fst (runStep (chain_of picky []) background (with_fallback ''bad'') Map.empty start)
     = ([], Some (StepAndFallbackFailed (ExecutorAfter 1 (Some (Failure ''rejected'')))))"
proof -
  let ?ch = "chain_of picky []"
  let ?ex = "retrying picky 0"
  have ex: "exec ?ch = Some ?ex" by (simp add: chain_of_def)
  have one: "fst (runStep ?ch background (with_fallback p) Map.empty start)
      = (if p = ''bad'' then ([], Some (StepAndFallbackFailed (ExecutorAfter 1 (Some (Failure ''rejected'')))))
         else (p, None))"
    if p: "p = ''bad'' \<or> p = ''plan b''" for p
  proof -
    let ?s = "with_fallback p"
    let ?c = "step_ctx ?s background (now start)"
    let ?rq = "step_request ?ch ?s Map.empty"
    let ?P = "primary_fails ?ex ?s ?c ?rq 0 start"
    let ?F = "Execute ?ex ?c (?rq\<lparr>Prompt := Some (say p)\<rparr>) (snd (the ?P))"
    have fb: "fallback ?s = Some (say p)" by (simp add: with_fallback_def)
    have pe: "fst (the ?P) = ExecutorAfter 1 (Some (Failure ''rejected''))" and pn: "?P \<noteq> None"
      by (simp_all add: chain_defs run_defs with_fallback_def primary_fails.simps)
    then have pf: "?P = Some (ExecutorAfter 1 (Some (Failure ''rejected'')), snd (the ?P))"
      by (cases ?P) auto
    have out: "?F = ((fst (fst ?F), snd (fst ?F)), snd ?F)" by simp
    have ns: "\<not> skipped ?s background Map.empty"
      by (simp add: skipped_def with_fallback_def step_def)
    have fer: "snd (fst ?F) = (if p = ''bad'' then Some (ExecutorAfter 1 (Some (Failure ''rejected''))) else None)"
      and fc: "map_option Content (fst (fst ?F)) = (if p = ''bad'' then None else Some p)"
      using p by (auto simp: chain_defs run_defs with_fallback_def primary_fails.simps)
    from fallback_output_or_original_error[OF ex fb pf out ns] fer fc
    show ?thesis by (auto split: if_splits)
  qed
  from one[of "''plan b''"] one[of "''bad''"] show ?thesis by simp
qed

end
